theory Spec2Isabelle
  imports Complex_Main "HOL-Library.Char_ord" "HOL-Library.List_Lexorder" "HOL-Library.Multiset"
    "HOL-Library.Log_Nat"
begin

section \<open>Python string and path primitives used by gopro\_utility.py\<close>

text \<open>
  Python strings are modelled as \<^typ>\<open>string\<close>. With \<open>Char_ord\<close> and \<open>List_Lexorder\<close>
  the order on \<^typ>\<open>string\<close> is the lexicographic order on character codes, which is how
  Python compares \<open>str\<close> values.
\<close>

definition startswith :: "string \<Rightarrow> string \<Rightarrow> bool" where
  "startswith s p = (take (length p) s = p)"

definition endswith :: "string \<Rightarrow> string \<Rightarrow> bool" where
  "endswith s p = (length p \<le> length s \<and> drop (length s - length p) s = p)"

text \<open>The slice \<open>s[i:j]\<close> for literal bounds \<open>0 \<le> i \<le> j\<close>; it never raises.\<close>

definition slice :: "nat \<Rightarrow> nat \<Rightarrow> string \<Rightarrow> string" where
  "slice i j s = take (j - i) (drop i s)"

text \<open>\<open>sub in s\<close>.\<close>

fun contains :: "string \<Rightarrow> string \<Rightarrow> bool" where
  "contains sub [] = (sub = [])"
| "contains sub (c # cs) = (startswith (c # cs) sub \<or> contains sub cs)"

text \<open>
  \<open>s.split(sep)\<close> for a non-empty separator: the pieces between the non-overlapping
  occurrences of \<open>sep\<close>, found from the left. The source only passes the literals
  \<open>"time="\<close>, \<open>':'\<close> and \<open>os.path.sep\<close>; Python raises on an empty separator, which the
  model does not split at all.
\<close>

fun split_aux :: "string \<Rightarrow> string \<Rightarrow> string \<Rightarrow> string list" where
  "split_aux sep acc [] = [rev acc]"
| "split_aux sep acc (c # cs) =
     (if sep \<noteq> [] \<and> startswith (c # cs) sep
      then rev acc # split_aux sep [] (drop (length sep - 1) cs)
      else split_aux sep (c # acc) cs)"

definition split_sep :: "string \<Rightarrow> string \<Rightarrow> string list" where
  "split_sep sep s = split_aux sep [] s"

text \<open>Whitespace as \<open>str.isspace\<close> sees it on the code points below 256.\<close>

definition is_space :: "char \<Rightarrow> bool" where
  "is_space c =
     (let n = (of_char c :: nat)
      in (9 \<le> n \<and> n \<le> 13) \<or> (28 \<le> n \<and> n \<le> 32) \<or> n = 133 \<or> n = 160)"

text \<open>\<open>s.split()\<close>: the maximal runs of non-whitespace characters.\<close>

fun split_ws_aux :: "string \<Rightarrow> string \<Rightarrow> string list" where
  "split_ws_aux acc [] = (if acc = [] then [] else [rev acc])"
| "split_ws_aux acc (c # cs) =
     (if is_space c
      then (if acc = [] then split_ws_aux [] cs else rev acc # split_ws_aux [] cs)
      else split_ws_aux (c # acc) cs)"

definition split_ws :: "string \<Rightarrow> string list" where
  "split_ws s = split_ws_aux [] s"

text \<open>\<open>s.strip()\<close>.\<close>

definition strip :: "string \<Rightarrow> string" where
  "strip s = rev (dropWhile is_space (rev (dropWhile is_space s)))"

text \<open>\<open>os.path.sep\<close> and the two-argument \<open>os.path.join\<close> of posixpath.\<close>

definition path_sep :: string where
  "path_sep = ''/''"

definition path_join :: "string \<Rightarrow> string \<Rightarrow> string" where
  "path_join a b =
     (if startswith b path_sep then b
      else if a = [] \<or> endswith a path_sep then a @ b
      else a @ path_sep @ b)"

text \<open>\<open>os.path.basename\<close> of posixpath: what follows the last separator.\<close>

definition basename :: "string \<Rightarrow> string" where
  "basename p = last (split_sep path_sep p)"

section \<open>group\_gopro\_files\<close>

text \<open>
  \<open>video_groups\<close> is a \<open>defaultdict(list)\<close>. Python dictionaries keep insertion order and
  the batch iterates \<open>items()\<close>, so the dictionary is an association list in insertion
  order. \<open>dd_append g k v\<close> is \<open>g[k].append(v)\<close>.
\<close>

type_synonym video_groups = "(string \<times> string list) list"

fun dd_append :: "video_groups \<Rightarrow> string \<Rightarrow> string \<Rightarrow> video_groups" where
  "dd_append [] k v = [(k, [v])]"
| "dd_append ((k', vs) # g) k v =
     (if k' = k then (k', vs @ [v]) # g else (k', vs) # dd_append g k v)"

text \<open>The filter of line 32: \<open>f.endswith('.MP4') and f.startswith('GH')\<close>.\<close>

definition is_gopro_name :: "string \<Rightarrow> bool" where
  "is_gopro_name f = (endswith f ''.MP4'' \<and> startswith f ''GH'')"

text \<open>The sort key of line 40: \<open>x.split(os.path.sep)[-1][2:4]\<close>.\<close>

definition part_key :: "string \<Rightarrow> string" where
  "part_key x = slice 2 4 (last (split_sep path_sep x))"

text \<open>
  \<open>group_gopro_files\<close> takes the directory name and the result of \<open>os.listdir\<close> on it.
  \<open>list.sort(key=...)\<close> is a stable sort, as \<^const>\<open>sort_key\<close> is.
\<close>

definition collect_groups :: "string \<Rightarrow> string list \<Rightarrow> video_groups" where
  "collect_groups input_directory files =
     foldl (\<lambda>g filename. dd_append g (slice 4 8 filename) (path_join input_directory filename))
       [] files"

definition group_gopro_files :: "string \<Rightarrow> string list \<Rightarrow> video_groups" where
  "group_gopro_files input_directory listing =
     (let files = filter is_gopro_name listing;
          video_groups = collect_groups input_directory files
      in map (\<lambda>(video_number, paths). (video_number, sort_key part_key paths)) video_groups)"

section \<open>Numbers and exceptions\<close>

datatype py_error =
    ValueError | IndexError | ZeroDivisionError | OverflowError
  | OSError | FileNotFoundError | CalledProcessError int | UnicodeDecodeError

text \<open>
  The numbers of the progress computation are Python floats (and the ints 0, 60, 100 and
  3600, which are floats exactly). A finite float is the rational it denotes; the
  infinities and NaN are values of their own; the sign of a zero is not kept, since
  nothing here depends on it.
\<close>

datatype pynum = Fin rat | PInf | NInf | NaN

text \<open>
  Python floats are IEEE 754 binary64 numbers, and every arithmetic operation, like
  \<open>float\<close> on a string, returns the exact result rounded to the nearest such number, ties
  to the even mantissa. \<open>round_double\<close> is that rounding: 53 bits of mantissa, exponents
  from -1022 with gradual underflow below, and an infinity when the rounded value reaches
  \<open>2 ^ 1024\<close>, that is, when its exponent is 1024 or more.
\<close>

definition pow2 :: "int \<Rightarrow> rat" where
  "pow2 e = (if 0 \<le> e then 2 ^ nat e else 1 / 2 ^ nat (- e))"

text \<open>The integer \<open>e\<close> with \<open>2 ^ e \<le> r < 2 ^ (e + 1)\<close>, for \<open>r > 0\<close>.\<close>

definition floor_log2 :: "rat \<Rightarrow> int" where
  "floor_log2 r =
     (let e0 = bitlen (fst (quotient_of r)) - bitlen (snd (quotient_of r))
      in if pow2 e0 \<le> r then e0 else e0 - 1)"

definition round_half_even :: "rat \<Rightarrow> int" where
  "round_half_even x =
     (let f = \<lfloor>x\<rfloor>; d = x - of_int f
      in if d < 1 / 2 then f else if 1 / 2 < d then f + 1 else if even f then f else f + 1)"

definition round_double :: "rat \<Rightarrow> pynum" where
  "round_double r =
     (if r = 0 then Fin 0
      else
        (let a = \<bar>r\<bar>;
             e = max (floor_log2 a) (- 1022);
             quantum = pow2 (e - 52);
             v = of_int (round_half_even (a / quantum)) * quantum
         in if 1024 \<le> floor_log2 v then (if 0 < r then PInf else NInf)
            else Fin (if 0 < r then v else - v)))"

definition fsign :: "pynum \<Rightarrow> rat" where
  "fsign x = (case x of Fin a \<Rightarrow> sgn a | PInf \<Rightarrow> 1 | NInf \<Rightarrow> - 1 | NaN \<Rightarrow> 0)"

definition of_sign :: "rat \<Rightarrow> pynum" where
  "of_sign s = (if s = 0 then NaN else if 0 < s then PInf else NInf)"

text \<open>\<open>x + y\<close>, \<open>x * y\<close> and the true division \<open>x / y\<close>, which raises on a zero divisor.\<close>

definition fadd :: "pynum \<Rightarrow> pynum \<Rightarrow> pynum" where
  "fadd x y =
     (case (x, y) of
        (Fin a, Fin b) \<Rightarrow> round_double (a + b)
      | (NaN, _) \<Rightarrow> NaN
      | (_, NaN) \<Rightarrow> NaN
      | (Fin a, _) \<Rightarrow> y
      | (_, Fin b) \<Rightarrow> x
      | _ \<Rightarrow> (if x = y then x else NaN))"

definition fmul :: "pynum \<Rightarrow> pynum \<Rightarrow> pynum" where
  "fmul x y =
     (case (x, y) of
        (Fin a, Fin b) \<Rightarrow> round_double (a * b)
      | _ \<Rightarrow> of_sign (fsign x * fsign y))"

definition fdiv :: "pynum \<Rightarrow> pynum \<Rightarrow> py_error + pynum" where
  "fdiv x y =
     (if y = Fin 0 then Inl ZeroDivisionError
      else Inr (case (x, y) of
                  (Fin a, Fin b) \<Rightarrow> round_double (a / b)
                | (NaN, _) \<Rightarrow> NaN
                | (_, NaN) \<Rightarrow> NaN
                | (Fin a, _) \<Rightarrow> Fin 0
                | (_, Fin b) \<Rightarrow> of_sign (fsign x * sgn b)
                | _ \<Rightarrow> NaN))"

text \<open>\<open>int(x)\<close> truncates towards zero and raises on an infinity or NaN.\<close>

definition py_int :: "pynum \<Rightarrow> py_error + int" where
  "py_int x =
     (case x of
        Fin a \<Rightarrow> Inr (if 0 \<le> a then \<lfloor>a\<rfloor> else \<lceil>a\<rceil>)
      | NaN \<Rightarrow> Inl ValueError
      | _ \<Rightarrow> Inl OverflowError)"

text \<open>The truth value of \<open>total_duration\<close>, which is \<open>None\<close> or a number.\<close>

definition truthy :: "pynum option \<Rightarrow> bool" where
  "truthy t = (case t of None \<Rightarrow> False | Some x \<Rightarrow> x \<noteq> Fin 0)"

text \<open>\<open>xs[i]\<close> for a literal \<open>i \<ge> 0\<close>.\<close>

definition py_index :: "'a list \<Rightarrow> nat \<Rightarrow> py_error + 'a" where
  "py_index xs i = (if i < length xs then Inr (xs ! i) else Inl IndexError)"

text \<open>\<open>str(n)\<close> for the part numbers of \<open>enumerate\<close>.\<close>

definition digit_char :: "nat \<Rightarrow> char" where
  "digit_char d = char_of (48 + d)"

fun str_nat :: "nat \<Rightarrow> string" where
  "str_nat n = (if n < 10 then [digit_char n] else str_nat (n div 10) @ [digit_char (n mod 10)])"

declare str_nat.simps [simp del]

section \<open>The environment and the observable effects\<close>

record process =
  stderr_lines :: "string list"
  returncode :: int

text \<open>
  What the program asks of Python's library and of the operating system. \<open>py_float\<close> is
  the builtin \<open>float\<close> on a string (\<open>None\<close>: it raises ValueError); \<open>check_output\<close> is
  \<open>subprocess.check_output(cmd).decode()\<close>; \<open>popen\<close> is \<open>subprocess.Popen\<close>, whose
  process has the lines its error stream will deliver and its exit status; \<open>open_write\<close>
  is \<open>open(path, 'w')\<close> and \<open>copy2\<close> is \<open>shutil.copy2\<close> (\<open>None\<close>: no exception).
\<close>

record env =
  py_float :: "string \<Rightarrow> pynum option"
  abspath :: "string \<Rightarrow> string"
  listdir :: "string \<Rightarrow> py_error + string list"
  makedirs :: "string \<Rightarrow> py_error option"
  open_write :: "string \<Rightarrow> py_error option"
  check_output :: "string list \<Rightarrow> py_error + string"
  popen :: "string list \<Rightarrow> py_error + process"
  copy2 :: "string \<Rightarrow> string \<Rightarrow> py_error option"

datatype message =
    MergedInto string
  | MergeReturnedCode int
  | MergeError py_error
  | ProcessingVideos
  | MergingParts string
  | CopiedSingle string string
  | CopiedRenamed string string
  | ErrorProcessing string py_error

text \<open>
  The trace records, in order, what the program does to the outside: \<open>Print\<close> a line,
  start a process, open, advance (to the given position) and close the progress bar, wait
  for the process, call \<open>shutil.copy2\<close>.
\<close>

datatype event =
    Print message
  | Popen "string list"
  | BarOpen string
  | Progress int
  | BarClose
  | Wait
  | Copy2 string string

record world =
  files :: "string \<Rightarrow> string option"
  trace :: "event list"

definition emit :: "event list \<Rightarrow> world \<Rightarrow> world" where
  "emit es w = w\<lparr>trace := trace w @ es\<rparr>"

section \<open>get\_video\_duration\<close>

definition ffprobe_cmd :: "string \<Rightarrow> string list" where
  "ffprobe_cmd filepath =
     [''ffprobe'', ''-v'', ''error'', ''-show_entries'', ''format=duration'',
      ''-of'', ''default=noprint_wrappers=1:nokey=1'', filepath]"

text \<open>The body of the \<open>try\<close> (lines 47 to 55).\<close>

definition probe_duration :: "env \<Rightarrow> string \<Rightarrow> py_error + pynum" where
  "probe_duration e filepath =
     (case check_output e (ffprobe_cmd filepath) of
        Inl err \<Rightarrow> Inl err
      | Inr out \<Rightarrow>
          (case py_float e (strip out) of
             None \<Rightarrow> Inl ValueError
           | Some d \<Rightarrow> Inr d))"

text \<open>The bare \<open>except\<close> turns every exception into the result 0.\<close>

definition get_video_duration :: "env \<Rightarrow> string \<Rightarrow> py_error + pynum" where
  "get_video_duration e filepath =
     (case probe_duration e filepath of
        Inl err \<Rightarrow> Inr (Fin 0)
      | Inr d \<Rightarrow> Inr d)"

section \<open>merge\_videos\_fast\<close>

text \<open>\<open>create_concat_file\<close> writes one quoted absolute path per line.\<close>

definition concat_text :: "env \<Rightarrow> string list \<Rightarrow> string" where
  "concat_text e video_paths =
     concat (map (\<lambda>video_path. ''file '' @ [CHR 0x27] @ abspath e video_path @ [CHR 0x27, CHR 0x0A])
       video_paths)"

definition create_concat_file :: "env \<Rightarrow> string list \<Rightarrow> string \<Rightarrow> world \<Rightarrow> py_error + world" where
  "create_concat_file e video_paths concat_file_path w =
     (case open_write e concat_file_path of
        Some err \<Rightarrow> Inl err
      | None \<Rightarrow> Inr (w\<lparr>files := (files w)(concat_file_path \<mapsto> concat_text e video_paths)\<rparr>))"

definition ffmpeg_cmd :: "string \<Rightarrow> string \<Rightarrow> string list" where
  "ffmpeg_cmd concat_file output_path =
     [''ffmpeg'', ''-f'', ''concat'', ''-safe'', ''0'', ''-i'', concat_file,
      ''-c'', ''copy'', ''-movflags'', ''+faststart'', ''-y'', output_path]"

text \<open>
  Lines 110 and 111: the text after the first \<open>time=\<close> up to the next whitespace, split
  at the colons, each piece given to \<open>float\<close>, unpacked into exactly three values.
\<close>

definition unpack3 :: "pynum option list \<Rightarrow> py_error + (pynum \<times> pynum \<times> pynum)" where
  "unpack3 vs =
     (case vs of
        [Some hours, Some minutes, Some seconds] \<Rightarrow> Inr (hours, minutes, seconds)
      | _ \<Rightarrow> Inl ValueError)"

definition time_fields :: "(string \<Rightarrow> pynum option) \<Rightarrow> string \<Rightarrow> py_error + (pynum \<times> pynum \<times> pynum)" where
  "time_fields float line =
     (case py_index (split_sep ''time='' line) 1 of
        Inl err \<Rightarrow> Inl err
      | Inr rest \<Rightarrow>
          (case py_index (split_ws rest) 0 of
             Inl err \<Rightarrow> Inl err
           | Inr time_str \<Rightarrow> unpack3 (map float (split_sep '':'' time_str))))"

text \<open>Lines 112 and 113.\<close>

definition progress_value :: "pynum \<Rightarrow> pynum \<times> pynum \<times> pynum \<Rightarrow> py_error + int" where
  "progress_value total_duration hms =
     (case hms of (hours, minutes, seconds) \<Rightarrow>
        (let current_duration = fadd (fadd (fmul hours (Fin 3600)) (fmul minutes (Fin 60))) seconds
         in case fdiv current_duration total_duration of
              Inl err \<Rightarrow> Inl err
            | Inr q \<Rightarrow>
                (case py_int (fmul q (Fin 100)) of
                   Inl err \<Rightarrow> Inl err
                 | Inr i \<Rightarrow> Inr (min 100 i))))"

definition line_progress :: "(string \<Rightarrow> pynum option) \<Rightarrow> pynum \<Rightarrow> string \<Rightarrow> py_error + int" where
  "line_progress float total_duration line =
     (case time_fields float line of
        Inl err \<Rightarrow> Inl err
      | Inr hms \<Rightarrow> progress_value total_duration hms)"

text \<open>
  The \<open>while True\<close> loop of lines 103 to 117 over the lines the error stream delivers;
  \<open>readline\<close> returns the empty string at the end of the stream. \<open>n\<close> is the position of
  the tqdm bar, which \<open>update\<close> advances by its argument. The result is the list of
  positions the bar was advanced to, and the exception that ended the loop, if one did.
\<close>

fun read_progress ::
  "(string \<Rightarrow> pynum option) \<Rightarrow> pynum \<Rightarrow> string list \<Rightarrow> int \<Rightarrow> int \<Rightarrow> int list \<times> py_error option"
where
  "read_progress float total_duration [] last_progress n = ([], None)"
| "read_progress float total_duration (line # rest) last_progress n =
     (if line = [] then ([], None)
      else if contains ''time='' line then
        (case line_progress float total_duration line of
           Inl err \<Rightarrow> ([], Some err)
         | Inr progress \<Rightarrow>
             (if progress > last_progress then
                (let n' = n + (progress - last_progress);
                     (out, r) = read_progress float total_duration rest progress n'
                 in (n' # out, r))
              else read_progress float total_duration rest last_progress n))
      else read_progress float total_duration rest last_progress n)"

text \<open>\<open>os.remove\<close>.\<close>

definition os_remove :: "string \<Rightarrow> world \<Rightarrow> py_error + world" where
  "os_remove path w =
     (case files w path of
        None \<Rightarrow> Inl FileNotFoundError
      | Some _ \<Rightarrow> Inr (w\<lparr>files := (files w)(path := None)\<rparr>))"

text \<open>
  The body of the \<open>try\<close> (lines 75 to 129): the world it leaves and the exception it
  raised, if any.
\<close>

definition merge_body ::
  "env \<Rightarrow> string list \<Rightarrow> string \<Rightarrow> pynum option \<Rightarrow> world \<Rightarrow> world \<times> py_error option"
where
  "merge_body e video_paths output_path total_duration w =
     (let concat_file = output_path @ ''.txt'' in
      case create_concat_file e video_paths concat_file w of
        Inl err \<Rightarrow> (w, Some err)
      | Inr w1 \<Rightarrow>
          (let cmd = ffmpeg_cmd concat_file output_path in
           case popen e cmd of
             Inl err \<Rightarrow> (w1, Some err)
           | Inr proc \<Rightarrow>
               (let w2 = emit [Popen cmd] w1;
                    (w3, r) =
                      (case (if truthy total_duration then total_duration else None) of
                         Some duration \<Rightarrow>
                           (let (ps, r) = read_progress (py_float e) duration (stderr_lines proc) 0 0;
                                w' = emit (BarOpen (''Merging '' @ basename output_path) # map Progress ps) w2
                            in case r of
                                 Some err \<Rightarrow> (w', Some err)
                               | None \<Rightarrow> (emit [BarClose] w', None))
                       | None \<Rightarrow> (w2, None))
                in case r of
                     Some err \<Rightarrow> (w3, Some err)
                   | None \<Rightarrow>
                       (let w4 = emit [Wait] w3 in
                        case os_remove concat_file w4 of
                          Inl err \<Rightarrow> (w4, Some err)
                        | Inr w5 \<Rightarrow>
                            (if returncode proc = 0
                             then (emit [Print (MergedInto output_path)] w5, None)
                             else (emit [Print (MergeReturnedCode (returncode proc))] w5, None))))))"

text \<open>
  \<open>except Exception as e\<close> prints the exception; every exception of the model is an
  \<open>Exception\<close>. The second component is what the call raises to its caller.
\<close>

definition merge_videos_fast ::
  "env \<Rightarrow> string list \<Rightarrow> string \<Rightarrow> pynum option \<Rightarrow> world \<Rightarrow> world \<times> py_error option"
where
  "merge_videos_fast e video_paths output_path total_duration w =
     (case merge_body e video_paths output_path total_duration w of
        (w', Some err) \<Rightarrow> (emit [Print (MergeError err)] w', None)
      | (w', None) \<Rightarrow> (w', None))"

section \<open>process\_gopro\_videos\<close>

text \<open>
  \<open>sum(get_video_duration(path) for path in file_paths)\<close>, from the start value 0: the
  durations are added from left to right, each addition rounded. (From version 3.12 on,
  CPython's \<open>sum\<close> also carries a compensation term for the rounding errors of the
  additions, which can change the last bit of the total; nothing below depends on it.)
\<close>

fun sum_durations :: "env \<Rightarrow> string list \<Rightarrow> pynum \<Rightarrow> py_error + pynum" where
  "sum_durations e [] acc = Inr acc"
| "sum_durations e (path # paths) acc =
     (case get_video_duration e path of
        Inl err \<Rightarrow> Inl err
      | Inr d \<Rightarrow> sum_durations e paths (fadd acc d))"

text \<open>The loop of the merge branch (lines 147 to 160) over \<open>video_groups.items()\<close>.\<close>

fun merge_groups :: "env \<Rightarrow> string \<Rightarrow> video_groups \<Rightarrow> world \<Rightarrow> world \<times> py_error option" where
  "merge_groups e output_directory [] w = (w, None)"
| "merge_groups e output_directory ((video_number, file_paths) # rest) w =
     (if length file_paths > 1 then
        (let output_path = path_join output_directory (video_number @ ''.MP4'') in
         case sum_durations e file_paths (Fin 0) of
           Inl err \<Rightarrow> (w, Some err)
         | Inr total_duration \<Rightarrow>
             (case merge_videos_fast e file_paths output_path (Some total_duration)
                     (emit [Print (MergingParts video_number)] w) of
                (w', Some err) \<Rightarrow> (w', Some err)
              | (w', None) \<Rightarrow> merge_groups e output_directory rest w'))
      else
        (let output_path = path_join output_directory (video_number @ ''.MP4'') in
         case py_index file_paths 0 of
           Inl err \<Rightarrow> (w, Some err)
         | Inr src \<Rightarrow>
             (let w1 = emit [Copy2 src output_path] w in
              case copy2 e src output_path of
                Some err \<Rightarrow> (w1, Some err)
              | None \<Rightarrow>
                  merge_groups e output_directory rest
                    (emit [Print (CopiedSingle (basename src) (video_number @ ''.MP4''))] w1))))"

text \<open>The exceptions of the model that \<open>except OSError\<close> catches.\<close>

definition is_OSError :: "py_error \<Rightarrow> bool" where
  "is_OSError err = (err = OSError \<or> err = FileNotFoundError)"

text \<open>
  The inner loop of the rename branch (lines 164 to 173); \<open>part_number\<close> counts from 1
  as \<open>enumerate(group_files, 1)\<close> does.
\<close>

fun rename_parts ::
  "env \<Rightarrow> string \<Rightarrow> string \<Rightarrow> nat \<Rightarrow> string list \<Rightarrow> world \<Rightarrow> world \<times> py_error option"
where
  "rename_parts e output_directory video_number part_number [] w = (w, None)"
| "rename_parts e output_directory video_number part_number (old_path # rest) w =
     (let old_filename = basename old_path;
          new_filename = video_number @ ''_'' @ str_nat part_number @ ''.MP4'';
          new_path = path_join output_directory new_filename;
          w1 = emit [Copy2 old_path new_path] w
      in case copy2 e old_path new_path of
           None \<Rightarrow>
             rename_parts e output_directory video_number (Suc part_number) rest
               (emit [Print (CopiedRenamed old_filename new_filename)] w1)
         | Some err \<Rightarrow>
             (if is_OSError err
              then rename_parts e output_directory video_number (Suc part_number) rest
                     (emit [Print (ErrorProcessing old_filename err)] w1)
              else (w1, Some err)))"

fun rename_groups :: "env \<Rightarrow> string \<Rightarrow> video_groups \<Rightarrow> world \<Rightarrow> world \<times> py_error option" where
  "rename_groups e output_directory [] w = (w, None)"
| "rename_groups e output_directory ((video_number, group_files) # rest) w =
     (case rename_parts e output_directory video_number 1 group_files w of
        (w', Some err) \<Rightarrow> (w', Some err)
      | (w', None) \<Rightarrow> rename_groups e output_directory rest w')"

text \<open>
  \<open>process_gopro_videos\<close>, with \<open>create_output_directory\<close> and the directory listing of
  \<open>group_gopro_files\<close> written out. The second component is the exception the call raises.
\<close>

definition process_gopro_videos :: "env \<Rightarrow> string \<Rightarrow> bool \<Rightarrow> world \<Rightarrow> world \<times> py_error option" where
  "process_gopro_videos e input_directory merge_videos w =
     (let output_directory = path_join input_directory ''processed_videos'' in
      case makedirs e output_directory of
        Some err \<Rightarrow> (w, Some err)
      | None \<Rightarrow>
          (case listdir e input_directory of
             Inl err \<Rightarrow> (w, Some err)
           | Inr listing \<Rightarrow>
               (let video_groups = group_gopro_files input_directory listing in
                if merge_videos
                then merge_groups e output_directory video_groups (emit [Print ProcessingVideos] w)
                else rename_groups e output_directory video_groups w)))"

section \<open>Auxiliary definitions for the statements\<close>

text \<open>The positions the progress bar was advanced to, read off a trace.\<close>

fun progress_events :: "event list \<Rightarrow> int list" where
  "progress_events [] = []"
| "progress_events (Progress n # es) = n # progress_events es"
| "progress_events (_ # es) = progress_events es"

text \<open>
  The shape \<open>GH????*.MP4\<close> as the specification words it: the prefix \<open>GH\<close>, at least four
  more characters for the identifier at offset 4, and the extension \<open>.MP4\<close>.
\<close>

definition matches_spec_pattern :: "string \<Rightarrow> bool" where
  "matches_spec_pattern f = (startswith f ''GH'' \<and> endswith f ''.MP4'' \<and> 10 \<le> length f)"

text \<open>
  \<open>float\<close> on plain decimal text (an optional sign, digits, optionally a point and more
  digits), rounded to the nearest float, for the concrete environments below; \<open>float\<close>
  itself accepts more.
\<close>

definition is_digit :: "char \<Rightarrow> bool" where
  "is_digit c = (48 \<le> (of_char c :: nat) \<and> (of_char c :: nat) \<le> 57)"

definition digits_value :: "string \<Rightarrow> nat" where
  "digits_value ds = foldl (\<lambda>a c. 10 * a + (of_char c - 48)) 0 ds"

definition dec_unsigned :: "string \<Rightarrow> rat option" where
  "dec_unsigned s =
     (let ip = takeWhile is_digit s; rest = dropWhile is_digit s in
      case rest of
        [] \<Rightarrow> (if ip = [] then None else Some (of_nat (digits_value ip)))
      | c # fp \<Rightarrow>
          (if c = CHR ''.'' \<and> list_all is_digit fp \<and> (ip \<noteq> [] \<or> fp \<noteq> [])
           then Some (of_nat (digits_value ip) + of_nat (digits_value fp) / 10 ^ length fp)
           else None))"

definition dec_float :: "string \<Rightarrow> pynum option" where
  "dec_float s =
     (case s of
        [] \<Rightarrow> None
      | c # cs \<Rightarrow>
          (if c = CHR ''-'' then map_option (\<lambda>r. round_double (- r)) (dec_unsigned cs)
           else if c = CHR ''+'' then map_option round_double (dec_unsigned cs)
           else map_option round_double (dec_unsigned s)))"

text \<open>
  A concrete environment: every file operation succeeds, \<open>ffprobe\<close> reports 5 seconds for
  every file, and \<open>ffmpeg\<close> exits with status 0 after the given diagnostic lines.
\<close>

definition env0 :: "string list \<Rightarrow> env" where
  "env0 diagnostics =
     \<lparr> py_float = dec_float,
       abspath = (\<lambda>p. ''/'' @ p),
       listdir = (\<lambda>d. Inr []),
       makedirs = (\<lambda>d. None),
       open_write = (\<lambda>p. None),
       check_output = (\<lambda>cmd. Inr ''5.000000''),
       popen = (\<lambda>cmd. Inr \<lparr>stderr_lines = diagnostics, returncode = 0\<rparr>),
       copy2 = (\<lambda>src dst. None) \<rparr>"

definition world0 :: world where
  "world0 = \<lparr> files = Map.empty, trace = [] \<rparr>"

section \<open>Properties of group\_gopro\_files\<close>

lemma dd_append_keys:
  "map fst (dd_append g k v) = (if k \<in> set (map fst g) then map fst g else map fst g @ [k])"
  by (induction g k v rule: dd_append.induct) auto

lemma dd_append_distinct:
  "distinct (map fst g) \<Longrightarrow> distinct (map fst (dd_append g k v))"
  by (simp add: dd_append_keys)

lemma dd_append_map_of:
  "map_of (dd_append g k v) k' =
     (if k' = k then Some ((case map_of g k of None \<Rightarrow> [] | Some vs \<Rightarrow> vs) @ [v])
      else map_of g k')"
  by (induction g k v rule: dd_append.induct) auto

lemma foldl_dd_append_distinct:
  "distinct (map fst g) \<Longrightarrow>
   distinct (map fst (foldl (\<lambda>g f. dd_append g (kf f) (vf f)) g fs))"
  by (induction fs arbitrary: g) (simp_all add: dd_append_distinct)

lemma foldl_dd_append_map_of:
  "map_of (foldl (\<lambda>g f. dd_append g (kf f) (vf f)) g fs) k =
     (case map_of g k of
        None \<Rightarrow> (if filter (\<lambda>f. kf f = k) fs = [] then None
                 else Some (map vf (filter (\<lambda>f. kf f = k) fs)))
      | Some ws \<Rightarrow> Some (ws @ map vf (filter (\<lambda>f. kf f = k) fs)))"
proof (induction fs arbitrary: g)
  case Nil
  then show ?case by (simp split: option.splits)
next
  case (Cons f fs)
  show ?case
    by (simp add: Cons.IH dd_append_map_of split: option.splits)
qed

lemma collect_groups_distinct: "distinct (map fst (collect_groups d fs))"
  unfolding collect_groups_def by (rule foldl_dd_append_distinct) simp

lemma collect_groups_map_of:
  "map_of (collect_groups d fs) k =
     (if filter (\<lambda>f. slice 4 8 f = k) fs = [] then None
      else Some (map (path_join d) (filter (\<lambda>f. slice 4 8 f = k) fs)))"
  unfolding collect_groups_def by (simp add: foldl_dd_append_map_of)

lemma group_keys: "map fst (group_gopro_files d l) = map fst (collect_groups d (filter is_gopro_name l))"
  by (simp add: group_gopro_files_def Let_def case_prod_unfold comp_def)

lemma group_distinct: "distinct (map fst (group_gopro_files d l))"
  by (simp add: group_keys collect_groups_distinct)

lemma map_of_map_snd:
  "map_of (map (\<lambda>p. (fst p, h (snd p))) xs) k = map_option h (map_of xs k)"
  by (induction xs) auto

lemma group_map_of:
  "map_of (group_gopro_files d l) k =
     (if filter (\<lambda>f. slice 4 8 f = k) (filter is_gopro_name l) = [] then None
      else Some (sort_key part_key (map (path_join d)
                  (filter (\<lambda>f. slice 4 8 f = k) (filter is_gopro_name l)))))"
proof -
  have "map_of (group_gopro_files d l) k
        = map_option (sort_key part_key) (map_of (collect_groups d (filter is_gopro_name l)) k)"
    by (simp add: group_gopro_files_def Let_def case_prod_unfold map_of_map_snd)
  then show ?thesis by (simp add: collect_groups_map_of)
qed

lemma group_mem:
  "(k, ps) \<in> set (group_gopro_files d l) \<longleftrightarrow>
     filter (\<lambda>f. slice 4 8 f = k) (filter is_gopro_name l) \<noteq> [] \<and>
     ps = sort_key part_key (map (path_join d)
            (filter (\<lambda>f. slice 4 8 f = k) (filter is_gopro_name l)))"
  using map_of_eq_Some_iff [OF group_distinct, of d l k ps]
  by (auto simp: group_map_of split: if_splits)

lemma gopro_name_not_sep: "is_gopro_name f \<Longrightarrow> \<not> startswith f path_sep"
  by (cases f) (auto simp: is_gopro_name_def startswith_def path_sep_def)

lemma path_join_prefix: "\<exists>p. \<forall>f. \<not> startswith f path_sep \<longrightarrow> path_join d f = p @ f"
  unfolding path_join_def by (metis append_assoc)

lemma path_join_inj:
  assumes "is_gopro_name f" "is_gopro_name f'" "path_join d f = path_join d f'"
  shows "f = f'"
proof -
  obtain p where p: "\<forall>f. \<not> startswith f path_sep \<longrightarrow> path_join d f = p @ f"
    using path_join_prefix by blast
  from assms p show ?thesis by (simp add: gopro_name_not_sep)
qed

lemma group_set:
  assumes "g \<in> set (group_gopro_files d l)"
  shows "set (snd g) = path_join d ` {f \<in> set l. is_gopro_name f \<and> slice 4 8 f = fst g}"
    and "snd g \<noteq> []"
proof -
  obtain k ps where g: "g = (k, ps)" by (cases g)
  from assms g have ne: "filter (\<lambda>f. slice 4 8 f = k) (filter is_gopro_name l) \<noteq> []"
    and ps: "ps = sort_key part_key (map (path_join d)
            (filter (\<lambda>f. slice 4 8 f = k) (filter is_gopro_name l)))"
    by (simp_all add: group_mem)
  from ps g show "set (snd g) = path_join d ` {f \<in> set l. is_gopro_name f \<and> slice 4 8 f = fst g}"
    by auto
  from ne ps g show "snd g \<noteq> []"
    by (metis length_0_conv length_map length_sort snd_conv)
qed

lemma group_has_key:
  assumes "f \<in> set l" "is_gopro_name f"
  shows "\<exists>g \<in> set (group_gopro_files d l). fst g = slice 4 8 f"
proof -
  from assms have "f \<in> set (filter (\<lambda>f'. slice 4 8 f' = slice 4 8 f) (filter is_gopro_name l))"
    by simp
  then have "filter (\<lambda>f'. slice 4 8 f' = slice 4 8 f) (filter is_gopro_name l) \<noteq> []"
    by (metis empty_iff empty_set)
  then have "(slice 4 8 f, sort_key part_key (map (path_join d)
            (filter (\<lambda>f'. slice 4 8 f' = slice 4 8 f) (filter is_gopro_name l))))
          \<in> set (group_gopro_files d l)"
    by (simp add: group_mem)
  then show ?thesis by force
qed

lemma group_member_iff:
  assumes "g \<in> set (group_gopro_files d l)" "is_gopro_name f" "f \<in> set l"
  shows "path_join d f \<in> set (snd g) \<longleftrightarrow> fst g = slice 4 8 f"
  using assms by (auto simp: group_set(1) dest: path_join_inj)

lemma group_key_unique:
  assumes "g \<in> set (group_gopro_files d l)" "g' \<in> set (group_gopro_files d l)" "fst g = fst g'"
  shows "g = g'"
  using assms group_distinct [of d l]
  by (metis eq_key_imp_eq_value prod.collapse)

lemma group_distinct_paths:
  assumes "distinct l" "g \<in> set (group_gopro_files d l)"
  shows "distinct (snd g)"
proof -
  obtain k ps where g: "g = (k, ps)" by (cases g)
  from assms g have ps: "ps = sort_key part_key (map (path_join d)
            (filter (\<lambda>f. slice 4 8 f = k) (filter is_gopro_name l)))"
    by (simp add: group_mem)
  have "inj_on (path_join d) (set (filter (\<lambda>f. slice 4 8 f = k) (filter is_gopro_name l)))"
    by (auto intro!: inj_onI dest: path_join_inj)
  with assms(1) have "distinct (map (path_join d)
            (filter (\<lambda>f. slice 4 8 f = k) (filter is_gopro_name l)))"
    by (simp add: distinct_map)
  with ps g show ?thesis by simp
qed

text \<open>
  Claim C2. \<open>group_gopro_files\<close> partitions the files it selects from a listing without
  repeated names: every selected file lies in exactly one group; two selected files share
  a group exactly when their names agree on the characters at offsets 4 to 7; a group
  holds nothing but selected files whose identifier is the group's key; the keys are
  pairwise different and no path occurs twice.
\<close>

theorem group_partitions_files:
  assumes "distinct listing"
  shows "(\<forall>f\<in>set listing. is_gopro_name f \<longrightarrow>
            (\<exists>!g. g \<in> set (group_gopro_files d listing) \<and> path_join d f \<in> set (snd g))) \<and>
         (\<forall>f\<in>set listing. \<forall>f'\<in>set listing. is_gopro_name f \<and> is_gopro_name f' \<longrightarrow>
            ((\<exists>g\<in>set (group_gopro_files d listing).
                path_join d f \<in> set (snd g) \<and> path_join d f' \<in> set (snd g))
             \<longleftrightarrow> slice 4 8 f = slice 4 8 f')) \<and>
         (\<forall>g\<in>set (group_gopro_files d listing). \<forall>p\<in>set (snd g).
            \<exists>f\<in>set listing. is_gopro_name f \<and> p = path_join d f \<and> fst g = slice 4 8 f) \<and>
         distinct (map fst (group_gopro_files d listing)) \<and>
         distinct (concat (map snd (group_gopro_files d listing)))"
proof (intro conjI ballI impI)
  fix f assume f: "f \<in> set listing" "is_gopro_name f"
  from group_has_key [OF f] obtain g where
    g: "g \<in> set (group_gopro_files d listing)" "fst g = slice 4 8 f" by blast
  show "\<exists>!g. g \<in> set (group_gopro_files d listing) \<and> path_join d f \<in> set (snd g)"
  proof (rule ex1I [of _ g])
    from g f show "g \<in> set (group_gopro_files d listing) \<and> path_join d f \<in> set (snd g)"
      by (simp add: group_member_iff)
  next
    fix g' assume a: "g' \<in> set (group_gopro_files d listing) \<and> path_join d f \<in> set (snd g')"
    then have g': "g' \<in> set (group_gopro_files d listing)" by simp
    from a group_member_iff [OF g' f(2) f(1)] have "fst g' = slice 4 8 f" by simp
    with g g' show "g' = g" by (simp add: group_key_unique)
  qed
next
  fix f f'
  assume f: "f \<in> set listing" "f' \<in> set listing" "is_gopro_name f \<and> is_gopro_name f'"
  show "(\<exists>g\<in>set (group_gopro_files d listing).
            path_join d f \<in> set (snd g) \<and> path_join d f' \<in> set (snd g))
        \<longleftrightarrow> slice 4 8 f = slice 4 8 f'"
  proof
    assume "\<exists>g\<in>set (group_gopro_files d listing).
              path_join d f \<in> set (snd g) \<and> path_join d f' \<in> set (snd g)"
    with f show "slice 4 8 f = slice 4 8 f'"
      by (metis group_member_iff)
  next
    assume eq: "slice 4 8 f = slice 4 8 f'"
    from f group_has_key [of f listing d] obtain g where
      g: "g \<in> set (group_gopro_files d listing)" "fst g = slice 4 8 f" by blast
    with f eq have "path_join d f \<in> set (snd g) \<and> path_join d f' \<in> set (snd g)"
      by (simp add: group_member_iff)
    with g show "\<exists>g\<in>set (group_gopro_files d listing).
              path_join d f \<in> set (snd g) \<and> path_join d f' \<in> set (snd g)" by blast
  qed
next
  fix g p assume "g \<in> set (group_gopro_files d listing)" "p \<in> set (snd g)"
  then show "\<exists>f\<in>set listing. is_gopro_name f \<and> p = path_join d f \<and> fst g = slice 4 8 f"
    by (auto simp: group_set(1))
next
  show "distinct (map fst (group_gopro_files d listing))" by (rule group_distinct)
next
  let ?G = "group_gopro_files d listing"
  have disj: "set (snd g) \<inter> set (snd g') = {}"
    if "g \<in> set ?G" "g' \<in> set ?G" "g \<noteq> g'" for g g'
  proof -
    from that have "fst g \<noteq> fst g'" using group_key_unique by blast
    with that show ?thesis by (auto simp: group_set(1) dest: path_join_inj)
  qed
  have inj: "inj_on snd (set ?G)"
  proof (rule inj_onI)
    fix g g' assume gg: "g \<in> set ?G" "g' \<in> set ?G" "snd g = snd g'"
    show "g = g'"
    proof (rule ccontr)
      assume "g \<noteq> g'"
      with gg disj [of g g'] have "set (snd g) = {}" by simp
      with group_set(2) [OF gg(1)] show False by simp
    qed
  qed
  have dG: "distinct ?G" using group_distinct [of d listing] by (simp add: distinct_map)
  show "distinct (concat (map snd ?G))"
  proof (rule distinct_concat)
    show "distinct (map snd ?G)" using dG inj by (simp add: distinct_map)
  next
    fix ys assume "ys \<in> set (map snd ?G)"
    then obtain g where "g \<in> set ?G" "ys = snd g" by auto
    then show "distinct ys" using group_distinct_paths [OF assms, of g d] by simp
  next
    fix ys zs assume "ys \<in> set (map snd ?G)" "zs \<in> set (map snd ?G)" "ys \<noteq> zs"
    then obtain g g' where "g \<in> set ?G" "g' \<in> set ?G" "ys = snd g" "zs = snd g'" "g \<noteq> g'"
      by auto
    then show "set ys \<inter> set zs = {}" using disj [of g g'] by simp
  qed
qed

theorem group_partitions_files_witness:
  "distinct [''GH010001.MP4'', ''GH020001.MP4'', ''GH010002.MP4''] \<and>
   ''GH020001.MP4'' \<in> set [''GH010001.MP4'', ''GH020001.MP4'', ''GH010002.MP4''] \<and>
   is_gopro_name ''GH020001.MP4'' \<and>
   (\<exists>!g. g \<in> set (group_gopro_files ''d'' [''GH010001.MP4'', ''GH020001.MP4'', ''GH010002.MP4'']) \<and>
         path_join ''d'' ''GH020001.MP4'' \<in> set (snd g))"
proof -
  have h: "distinct [''GH010001.MP4'', ''GH020001.MP4'', ''GH010002.MP4'']" by simp
  have m: "''GH020001.MP4'' \<in> set [''GH010001.MP4'', ''GH020001.MP4'', ''GH010002.MP4'']" by simp
  have n: "is_gopro_name ''GH020001.MP4''"
    by (simp add: is_gopro_name_def startswith_def endswith_def)
  from group_partitions_files [OF h, of "''d''", THEN conjunct1, THEN bspec, OF m] n
  have "\<exists>!g. g \<in> set (group_gopro_files ''d'' [''GH010001.MP4'', ''GH020001.MP4'', ''GH010002.MP4'']) \<and>
         path_join ''d'' ''GH020001.MP4'' \<in> set (snd g)"
    by (rule mp)
  with h m n show ?thesis by (intro conjI)
qed






lemma group_paths_iff:
  "(\<exists>g\<in>set (group_gopro_files d listing). p \<in> set (snd g)) \<longleftrightarrow>
   (\<exists>f\<in>set listing. is_gopro_name f \<and> p = path_join d f)"
proof
  assume "\<exists>g\<in>set (group_gopro_files d listing). p \<in> set (snd g)"
  then show "\<exists>f\<in>set listing. is_gopro_name f \<and> p = path_join d f"
    by (auto simp: group_set(1))
next
  assume "\<exists>f\<in>set listing. is_gopro_name f \<and> p = path_join d f"
  then obtain f where f: "f \<in> set listing" "is_gopro_name f" "p = path_join d f" by blast
  from group_has_key [OF f(1,2), of d] obtain g where
    g: "g \<in> set (group_gopro_files d listing)" "fst g = slice 4 8 f" by blast
  with f have "p \<in> set (snd g)" by (simp add: group_member_iff)
  with g show "\<exists>g\<in>set (group_gopro_files d listing). p \<in> set (snd g)" by blast
qed

text \<open>
  Claim C8, as amended. The scan selects exactly the entries whose name starts with \<open>GH\<close>
  and ends with \<open>.MP4\<close>, both compared case-sensitively: a path is in some group exactly
  when it is the joined path of such an entry. Nothing asks for a 4-character identifier.
\<close>

theorem scan_selects_prefix_and_extension:
  "(p \<in> set (concat (map snd (group_gopro_files d listing)))) =
   (\<exists>f\<in>set listing. startswith f ''GH'' \<and> endswith f ''.MP4'' \<and> p = path_join d f)"
  using group_paths_iff [of d listing p] by (auto simp: is_gopro_name_def)

text \<open>
  Claim C8 as stated fails: the 6-character name \<open>GH.MP4\<close> is too short to hold a
  4-character identifier at offset 4 and is not of the shape \<open>GH????*.MP4\<close>, yet the scan
  selects and groups it.
\<close>

theorem scan_selects_short_name:
  "path_join ''d'' ''GH.MP4'' \<in> set (concat (map snd (group_gopro_files ''d'' [''GH.MP4''])))
   \<and> \<not> matches_spec_pattern ''GH.MP4''"
  by (simp add: group_gopro_files_def collect_groups_def is_gopro_name_def matches_spec_pattern_def
      startswith_def endswith_def slice_def path_join_def path_sep_def)






section \<open>Properties of the float arithmetic\<close>

text \<open>
  \<open>floor_log2\<close> is the binary exponent, \<open>round_half_even\<close> is a nearest integer, and so
  \<open>round_double\<close> returns a float nearest to its argument.
\<close>

lemma round_half_even_nearest: "\<bar>of_int (round_half_even x) - x\<bar> \<le> 1 / 2"
proof -
  have "of_int \<lfloor>x\<rfloor> \<le> x" "x < of_int \<lfloor>x\<rfloor> + 1" by linarith+
  then show ?thesis by (auto simp: round_half_even_def Let_def abs_le_iff)
qed

lemma pow2_pos: "0 < pow2 e" by (simp add: pow2_def)

lemma pow2_powi: "pow2 e = 2 powi e"
  by (simp add: pow2_def power_int_def power_one_over)

lemma pow2_add: "pow2 (a + b) = pow2 a * pow2 b"
  by (simp add: pow2_powi power_int_add)

lemma pow2_mono: "a \<le> b \<Longrightarrow> pow2 a \<le> pow2 b"
  by (simp add: pow2_powi power_int_increasing)

lemma pow2_nat: "0 \<le> e \<Longrightarrow> pow2 e = 2 ^ nat e" by (simp add: pow2_def)

lemma floor_log2_bounds:
  assumes "0 < r"
  shows "pow2 (floor_log2 r) \<le> r \<and> r < pow2 (floor_log2 r + 1)"
proof -
  obtain p q where pq: "quotient_of r = (p, q)" by (cases "quotient_of r")
  then have q: "0 < q" and r: "r = of_int p / of_int q"
    by (auto dest: quotient_of_denom_pos quotient_of_div)
  with assms have p: "0 < p" by (simp add: zero_less_divide_iff)
  let ?bp = "bitlen p" and ?bq = "bitlen q"
  from bitlen_bounds [OF p] have bp: "2 ^ nat (?bp - 1) \<le> p" "p < 2 ^ nat ?bp" by auto
  from bitlen_bounds [OF q] have bq: "2 ^ nat (?bq - 1) \<le> q" "q < 2 ^ nat ?bq" by auto
  have bp1: "1 \<le> ?bp" using p by (simp add: bitlen_ge_iff_power)
  have bq1: "1 \<le> ?bq" using q by (simp add: bitlen_ge_iff_power)
  have P: "(of_int p :: rat) < pow2 ?bp"
    using bp(2) bp1 by (simp add: pow2_nat)
  have Q: "pow2 (?bq - 1) \<le> (of_int q :: rat)"
    using bq(1) bq1 by (simp add: pow2_nat)
  have "r * pow2 (?bq - 1) \<le> r * of_int q" using Q assms by simp
  also have "\<dots> = of_int p" using r q by simp
  also have "\<dots> < pow2 ?bp" by (rule P)
  also have "\<dots> = pow2 (?bp - ?bq + 1) * pow2 (?bq - 1)" by (simp add: pow2_add [symmetric])
  finally have up: "r < pow2 (?bp - ?bq + 1)" using pow2_pos [of "?bq - 1"] by simp
  show ?thesis
  proof (cases "pow2 (?bp - ?bq) \<le> r")
    case True
    with up pq show ?thesis by (simp add: floor_log2_def Let_def)
  next
    case False
    have P': "pow2 (?bp - 1) \<le> (of_int p :: rat)"
      using bp(1) bp1 by (simp add: pow2_nat)
    have Q': "(of_int q :: rat) < pow2 ?bq"
      using bq(2) bq1 by (simp add: pow2_nat)
    have "pow2 (?bp - ?bq - 1) * of_int q \<le> pow2 (?bp - ?bq - 1) * pow2 ?bq"
      using Q' pow2_pos [of "?bp - ?bq - 1"] by simp
    also have "\<dots> = pow2 (?bp - 1)" by (simp add: pow2_add [symmetric])
    also have "\<dots> \<le> of_int p" by (rule P')
    also have "\<dots> = r * of_int q" using r q by simp
    finally have "pow2 (?bp - ?bq - 1) \<le> r" using q by simp
    with False pq show ?thesis by (simp add: floor_log2_def Let_def)
  qed
qed


lemma pow2_less_iff: "pow2 a < pow2 b \<longleftrightarrow> a < b"
proof
  assume "pow2 a < pow2 b"
  show "a < b"
  proof (rule ccontr)
    assume "\<not> a < b"
    then have "pow2 b \<le> pow2 a" by (simp add: pow2_mono)
    with \<open>pow2 a < pow2 b\<close> show False by simp
  qed
next
  assume "a < b"
  then have "pow2 (a + 1) \<le> pow2 b" by (simp add: pow2_mono)
  moreover have "pow2 1 = 2" by (simp add: pow2_def)
  then have "pow2 a < pow2 (a + 1)" using pow2_pos [of a] by (simp add: pow2_add)
  ultimately show "pow2 a < pow2 b" by simp
qed

lemma floor_log2_pow2: "floor_log2 (pow2 e) = e"
proof -
  from floor_log2_bounds [OF pow2_pos, of e]
  have "pow2 (floor_log2 (pow2 e)) \<le> pow2 e" "pow2 e < pow2 (floor_log2 (pow2 e) + 1)" by auto
  then have "\<not> e < floor_log2 (pow2 e)" "e < floor_log2 (pow2 e) + 1"
    by (simp_all add: pow2_less_iff [symmetric] not_less)
  then show ?thesis by simp
qed

lemma round_half_even_of_int: "round_half_even (of_int n) = n"
  by (simp add: round_half_even_def)

text \<open>
  The result of \<open>round_double\<close> is a float near its argument: a mantissa of at most 53 bits
  times the quantum of the argument's binade, at most half a quantum away.
\<close>

lemma round_double_nearest:
  assumes "round_double r = Fin v" and "r \<noteq> 0"
  shows "\<exists>n. \<bar>v\<bar> = of_int n * pow2 (max (floor_log2 \<bar>r\<bar>) (- 1022) - 52) \<and>
             0 \<le> n \<and> n \<le> 2 ^ 53 \<and>
             \<bar>\<bar>v\<bar> - \<bar>r\<bar>\<bar> \<le> pow2 (max (floor_log2 \<bar>r\<bar>) (- 1022) - 52) / 2 \<and>
             (0 < r \<longrightarrow> 0 \<le> v) \<and> (r < 0 \<longrightarrow> v \<le> 0)"
proof -
  let ?a = "\<bar>r\<bar>"
  let ?e = "max (floor_log2 ?a) (- 1022)"
  let ?q = "pow2 (?e - 52)"
  let ?n = "round_half_even (?a / ?q)"
  have a: "0 < ?a" using assms(2) by simp
  have q: "0 < ?q" by (rule pow2_pos)
  from assms have v: "v = (if 0 < r then of_int ?n * ?q else - (of_int ?n * ?q))"
    by (simp add: round_double_def Let_def split: if_splits)
  have near: "\<bar>of_int ?n - ?a / ?q\<bar> \<le> 1 / 2" by (rule round_half_even_nearest)
  have "0 \<le> ?a / ?q" using a q by simp
  with near have "- 1 / 2 \<le> (of_int ?n :: rat)" by linarith
  then have "- 1 < (of_int ?n :: rat)" by linarith
  then have "- 1 < ?n" by (metis of_int_less_iff of_int_minus of_int_1)
  then have n0: "0 \<le> ?n" by linarith
  from floor_log2_bounds [OF a] have "?a < pow2 (floor_log2 ?a + 1)" by simp
  also have "\<dots> \<le> pow2 (?e + 1)" by (rule pow2_mono) simp
  also have "\<dots> = pow2 53 * ?q" by (simp add: pow2_add [symmetric] add.commute)
  finally have "?a / ?q < pow2 53" using q by (simp add: pos_divide_less_eq)
  then have lt: "?a / ?q < 2 ^ 53" by (simp add: pow2_def)
  with near have "(of_int ?n :: rat) < 2 ^ 53 + 1" by linarith
  then have "(of_int ?n :: rat) < of_int (2 ^ 53 + 1)" by simp
  then have "?n < 2 ^ 53 + 1" by (simp only: of_int_less_iff)
  then have n53: "?n \<le> 2 ^ 53" by linarith
  define x where "x = of_int ?n * ?q"
  have x0: "0 \<le> x" using n0 q by (simp add: x_def)
  from v have v': "v = (if 0 < r then x else - x)" by (simp only: x_def)
  from v' x0 have absv: "\<bar>v\<bar> = x" by simp
  have "(of_int ?n - ?a / ?q) * ?q = x - ?a" using q by (simp add: x_def left_diff_distrib)
  then have "\<bar>x - ?a\<bar> = \<bar>of_int ?n - ?a / ?q\<bar> * \<bar>?q\<bar>" by (simp only: abs_mult [symmetric])
  also have "\<dots> = \<bar>of_int ?n - ?a / ?q\<bar> * ?q" using q by simp
  also have "\<dots> \<le> 1 / 2 * ?q" using near q by (simp only: mult_right_mono less_imp_le)
  finally have err: "\<bar>\<bar>v\<bar> - ?a\<bar> \<le> ?q / 2" using absv by simp
  from v' x0 have sg: "(0 < r \<longrightarrow> 0 \<le> v) \<and> (r < 0 \<longrightarrow> v \<le> 0)" by simp
  from absv n0 n53 err sg show ?thesis unfolding x_def by blast
qed

lemma round_double_overflow: "1024 \<le> e \<Longrightarrow> round_double (pow2 e) = PInf"
proof -
  assume e: "1024 \<le> e"
  have p: "0 < pow2 e" by (rule pow2_pos)
  have "pow2 e / pow2 (e - 52) = pow2 52"
    using pow2_add [of 52 "e - 52"] pow2_pos [of "e - 52"] by simp
  also have "\<dots> = of_int (2 ^ 52)" by (simp add: pow2_def)
  finally have d: "pow2 e / pow2 (e - 52) = of_int (2 ^ 52)" .
  have m: "of_int (2 ^ 52) * pow2 (e - 52) = pow2 e"
    using pow2_add [of 52 "e - 52"] by (simp add: pow2_def)
  from e have mx: "max e (- 1022) = e" by simp
  have v: "of_int (round_half_even (pow2 e / pow2 (e - 52))) * pow2 (e - 52) = pow2 e"
    by (simp only: d round_half_even_of_int m)
  from p have ne: "pow2 e \<noteq> 0" by simp
  from p have ab: "\<bar>pow2 e\<bar> = pow2 e" by simp
  show ?thesis
    unfolding round_double_def Let_def ab floor_log2_pow2 mx v
    using p e ne by simp
qed

text \<open>
  With the smallest positive float for the total duration, one second of progress
  overflows the quotient, and \<open>int\<close> raises on the infinity.
\<close>

lemma progress_value_overflow:
  "progress_value (Fin (pow2 (- 1074))) (Fin 0, Fin 0, Fin 1) = Inl OverflowError"
proof -
  have c: "fadd (fadd (fmul (Fin 0) (Fin 3600)) (fmul (Fin 0) (Fin 60))) (Fin 1) = Fin 1"
    by code_simp
  have "1 / pow2 (- 1074) = pow2 1074"
    using pow2_add [of 1074 "- 1074"] pow2_pos [of "- 1074"]
    by (simp add: divide_eq_eq) (simp add: pow2_def)
  then have q: "fdiv (Fin 1) (Fin (pow2 (- 1074))) = Inr PInf"
    using pow2_pos [of "- 1074"] by (simp add: fdiv_def round_double_overflow)
  have m: "fmul PInf (Fin 100) = PInf" by (simp add: fmul_def of_sign_def fsign_def)
  show ?thesis
    by (simp add: progress_value_def Let_def c q m py_int_def)
qed

text \<open>One tenth is not a float; a tie goes to the even mantissa.\<close>

lemma round_double_samples:
  "round_double (1 / 10) = Fin (3602879701896397 / 36028797018963968) \<and>
   round_double (2 ^ 53 + 1) = Fin (2 ^ 53) \<and>
   round_double (2 ^ 53 + 3) = Fin (2 ^ 53 + 4)"
  by code_simp

section \<open>Properties of the progress computation\<close>

lemma of_sign_not_Fin: "of_sign s \<noteq> Fin r"
  by (simp add: of_sign_def)

lemma fmul_Fin_iff:
  "fmul x (Fin c) = Fin r \<longleftrightarrow> (\<exists>a. x = Fin a \<and> round_double (a * c) = Fin r)"
  by (cases x) (auto simp: fmul_def of_sign_not_Fin)

lemma fadd_Fin_iff:
  "fadd x y = Fin r \<longleftrightarrow> (\<exists>a b. x = Fin a \<and> y = Fin b \<and> round_double (a + b) = Fin r)"
  by (cases x; cases y) (auto simp: fadd_def)

lemma fdiv_Fin_iff:
  "t \<noteq> 0 \<Longrightarrow> fdiv x (Fin t) = Inr (Fin q) \<longleftrightarrow> (\<exists>a. x = Fin a \<and> round_double (a / t) = Fin q)"
  by (cases x) (auto simp: fdiv_def of_sign_not_Fin)

lemma py_int_Inr_iff: "py_int x = Inr i \<longleftrightarrow> (\<exists>a. x = Fin a \<and> i = (if 0 \<le> a then \<lfloor>a\<rfloor> else \<lceil>a\<rceil>))"
  by (cases x) (auto simp: py_int_def)

lemma progress_value_formula:
  assumes t: "0 < t" and pv: "progress_value (Fin t) (hours, minutes, seconds) = Inr p" and p: "0 < p"
  shows "\<exists>h m s c q x. hours = Fin h \<and> minutes = Fin m \<and> seconds = Fin s \<and>
           fadd (fadd (fmul (Fin h) (Fin 3600)) (fmul (Fin m) (Fin 60))) (Fin s) = Fin c \<and>
           round_double (c / t) = Fin q \<and> round_double (q * 100) = Fin x \<and>
           p = min 100 \<lfloor>x\<rfloor>"
proof -
  let ?cur = "fadd (fadd (fmul hours (Fin 3600)) (fmul minutes (Fin 60))) seconds"
  from pv obtain qq i where q: "fdiv ?cur (Fin t) = Inr qq"
    and i: "py_int (fmul qq (Fin 100)) = Inr i" and pi: "p = min 100 i"
    by (auto simp: progress_value_def Let_def split: sum.splits)
  from i obtain x where x: "fmul qq (Fin 100) = Fin x" "i = (if 0 \<le> x then \<lfloor>x\<rfloor> else \<lceil>x\<rceil>)"
    by (auto simp: py_int_Inr_iff)
  from x(1) obtain b where b: "qq = Fin b" "round_double (b * 100) = Fin x"
    by (auto simp: fmul_Fin_iff)
  from q b t obtain c where c: "?cur = Fin c" "round_double (c / t) = Fin b"
    by (auto simp: fdiv_Fin_iff)
  from c(1) obtain u s where us: "fadd (fmul hours (Fin 3600)) (fmul minutes (Fin 60)) = Fin u"
    "seconds = Fin s" by (auto simp: fadd_Fin_iff)
  from us(1) obtain u1 u2 where u12: "fmul hours (Fin 3600) = Fin u1" "fmul minutes (Fin 60) = Fin u2"
    by (auto simp: fadd_Fin_iff)
  from u12 obtain h m where hm: "hours = Fin h" "minutes = Fin m"
    by (auto simp: fmul_Fin_iff)
  have "0 \<le> x"
  proof (rule ccontr)
    assume "\<not> 0 \<le> x"
    then have "\<lceil>x\<rceil> \<le> 0" by (simp add: ceiling_le_zero)
    with \<open>\<not> 0 \<le> x\<close> x(2) pi p show False by simp
  qed
  with x(2) have "i = \<lfloor>x\<rfloor>" by simp
  with pi b c hm us(2) show ?thesis by auto
qed

lemma progress_value_le: "progress_value td hms = Inr p \<Longrightarrow> p \<le> 100"
  by (cases hms) (auto simp: progress_value_def Let_def split: sum.splits)

lemma line_progress_formula:
  assumes "0 < t" "line_progress float (Fin t) line = Inr p" "0 < p"
  shows "\<exists>h m s c q x. time_fields float line = Inr (Fin h, Fin m, Fin s) \<and>
           fadd (fadd (fmul (Fin h) (Fin 3600)) (fmul (Fin m) (Fin 60))) (Fin s) = Fin c \<and>
           round_double (c / t) = Fin q \<and> round_double (q * 100) = Fin x \<and>
           p = min 100 \<lfloor>x\<rfloor>"
proof -
  from assms(2) obtain hours minutes seconds where
    tf: "time_fields float line = Inr (hours, minutes, seconds)"
    and pv: "progress_value (Fin t) (hours, minutes, seconds) = Inr p"
    by (auto simp: line_progress_def split: sum.splits)
  from progress_value_formula [OF assms(1) pv assms(3)] tf show ?thesis by auto
qed

lemma line_progress_le: "line_progress float td line = Inr p \<Longrightarrow> p \<le> 100"
  by (auto simp: line_progress_def progress_value_le split: sum.splits)

text \<open>The loop invariant: the bar position equals last_progress.\<close>

lemma read_progress_values:
  "\<forall>p\<in>set (fst (read_progress float td ls lp lp)).
      lp < p \<and> (\<exists>line\<in>set ls. line_progress float td line = Inr p)"
proof (induction ls arbitrary: lp)
  case Nil
  show ?case by simp
next
  case (Cons line rest)
  show ?case
  proof (cases "line \<noteq> [] \<and> contains ''time='' line")
    case False
    with Cons.IH [of lp] show ?thesis by auto
  next
    case True
    show ?thesis
    proof (cases "line_progress float td line")
      case (Inl err)
      with True show ?thesis by simp
    next
      case (Inr progress)
      show ?thesis
      proof (cases "progress > lp")
        case False
        with True Inr Cons.IH [of lp] show ?thesis by auto
      next
        case gt: True
        obtain out r where rp: "read_progress float td rest progress progress = (out, r)"
          by (cases "read_progress float td rest progress progress")
        with Cons.IH [of progress] have
          ih: "\<forall>p\<in>set out. progress < p \<and> (\<exists>line\<in>set rest. line_progress float td line = Inr p)"
          by simp
        from True Inr gt rp
        have "fst (read_progress float td (line # rest) lp lp) = progress # out" by simp
        moreover from ih gt have "\<forall>p\<in>set out. lp < p" by fastforce
        ultimately show ?thesis using ih gt Inr by auto
      qed
    qed
  qed
qed

lemma read_progress_increasing:
  "sorted_wrt (<) (fst (read_progress float td ls lp lp))"
proof (induction ls arbitrary: lp)
  case Nil
  show ?case by simp
next
  case (Cons line rest)
  show ?case
  proof (cases "line \<noteq> [] \<and> contains ''time='' line")
    case False
    with Cons.IH [of lp] show ?thesis by auto
  next
    case True
    show ?thesis
    proof (cases "line_progress float td line")
      case (Inl err)
      with True show ?thesis by simp
    next
      case (Inr progress)
      show ?thesis
      proof (cases "progress > lp")
        case False
        with True Inr Cons.IH [of lp] show ?thesis by auto
      next
        case gt: True
        with True Inr Cons.IH [of progress] read_progress_values [of float td rest progress]
        show ?thesis
          by (auto simp: Let_def split: prod.splits)
      qed
    qed
  qed
qed

lemma progress_events_append:
  "progress_events (xs @ ys) = progress_events xs @ progress_events ys"
  by (induction xs rule: progress_events.induct) auto

lemma progress_events_map: "progress_events (map Progress ps) = ps"
  by (induction ps) auto

lemma merge_progress_events:
  "progress_events (trace (fst (merge_videos_fast e vp out td w))) =
     progress_events (trace w) @
       (if truthy td \<and> open_write e (out @ ''.txt'') = None then
          (case popen e (ffmpeg_cmd (out @ ''.txt'') out) of
             Inl err \<Rightarrow> []
           | Inr proc \<Rightarrow> fst (read_progress (py_float e) (the td) (stderr_lines proc) 0 0))
        else [])"
  by (auto simp: merge_videos_fast_def merge_body_def create_concat_file_def os_remove_def
      emit_def Let_def progress_events_append progress_events_map truthy_def
      split: option.splits sum.splits prod.splits if_splits)

text \<open>
  Claim C1, as amended. For a merge with a total duration \<open>t > 0\<close>, the positions the
  progress bar is advanced to during the call form a strictly increasing sequence (so no
  value is repeated) of values between 1 and 100, and each of them is \<open>min(100, floor(x))\<close>,
  where \<open>x\<close> is \<open>elapsed / t * 100\<close> as float arithmetic computes it from the hours, minutes
  and seconds parsed from one of the diagnostic lines: \<open>elapsed\<close> is
  \<open>hours * 3600 + minutes * 60 + seconds\<close>, and the result of every operation is rounded to
  the nearest float.
\<close>

theorem progress_increasing_and_bounded:
  assumes "0 < t"
  shows "\<exists>ps. progress_events (trace (fst (merge_videos_fast e vp out (Some (Fin t)) w)))
                = progress_events (trace w) @ ps \<and>
              sorted_wrt (<) ps \<and>
              (\<forall>p\<in>set ps. 0 < p \<and> p \<le> 100 \<and>
                 (\<exists>proc line h m s c q x.
                    popen e (ffmpeg_cmd (out @ ''.txt'') out) = Inr proc \<and>
                    line \<in> set (stderr_lines proc) \<and>
                    time_fields (py_float e) line = Inr (Fin h, Fin m, Fin s) \<and>
                    fadd (fadd (fmul (Fin h) (Fin 3600)) (fmul (Fin m) (Fin 60))) (Fin s) = Fin c \<and>
                    round_double (c / t) = Fin q \<and> round_double (q * 100) = Fin x \<and>
                    p = min 100 \<lfloor>x\<rfloor>))"
proof (cases "open_write e (out @ ''.txt'') = None \<and>
              (\<exists>proc. popen e (ffmpeg_cmd (out @ ''.txt'') out) = Inr proc)")
  case False
  then have "progress_events (trace (fst (merge_videos_fast e vp out (Some (Fin t)) w)))
                = progress_events (trace w) @ []"
    by (auto simp: merge_progress_events split: sum.splits)
  then show ?thesis by (intro exI [of _ "[]"]) simp
next
  case True
  then obtain proc where proc: "popen e (ffmpeg_cmd (out @ ''.txt'') out) = Inr proc" by blast
  let ?ps = "fst (read_progress (py_float e) (Fin t) (stderr_lines proc) 0 0)"
  from True proc assms
  have tr: "progress_events (trace (fst (merge_videos_fast e vp out (Some (Fin t)) w)))
                = progress_events (trace w) @ ?ps"
    by (simp add: merge_progress_events truthy_def)
  have inc: "sorted_wrt (<) ?ps" by (rule read_progress_increasing)
  have "\<forall>p\<in>set ?ps. 0 < p \<and> p \<le> 100 \<and>
                 (\<exists>proc line h m s c q x.
                    popen e (ffmpeg_cmd (out @ ''.txt'') out) = Inr proc \<and>
                    line \<in> set (stderr_lines proc) \<and>
                    time_fields (py_float e) line = Inr (Fin h, Fin m, Fin s) \<and>
                    fadd (fadd (fmul (Fin h) (Fin 3600)) (fmul (Fin m) (Fin 60))) (Fin s) = Fin c \<and>
                    round_double (c / t) = Fin q \<and> round_double (q * 100) = Fin x \<and>
                    p = min 100 \<lfloor>x\<rfloor>)"
  proof
    fix p assume "p \<in> set ?ps"
    with read_progress_values [of "py_float e" "Fin t" "stderr_lines proc" 0]
    obtain line where p: "0 < p" "line \<in> set (stderr_lines proc)"
      "line_progress (py_float e) (Fin t) line = Inr p" by blast
    from line_progress_formula [OF assms p(3) p(1)] obtain h m s c q x where
      "time_fields (py_float e) line = Inr (Fin h, Fin m, Fin s)"
      "fadd (fadd (fmul (Fin h) (Fin 3600)) (fmul (Fin m) (Fin 60))) (Fin s) = Fin c"
      "round_double (c / t) = Fin q" "round_double (q * 100) = Fin x"
      "p = min 100 \<lfloor>x\<rfloor>" by blast
    with p proc line_progress_le [OF p(3)]
    show "0 < p \<and> p \<le> 100 \<and>
                 (\<exists>proc line h m s c q x.
                    popen e (ffmpeg_cmd (out @ ''.txt'') out) = Inr proc \<and>
                    line \<in> set (stderr_lines proc) \<and>
                    time_fields (py_float e) line = Inr (Fin h, Fin m, Fin s) \<and>
                    fadd (fadd (fmul (Fin h) (Fin 3600)) (fmul (Fin m) (Fin 60))) (Fin s) = Fin c \<and>
                    round_double (c / t) = Fin q \<and> round_double (q * 100) = Fin x \<and>
                    p = min 100 \<lfloor>x\<rfloor>)"
      by blast
  qed
  with tr inc show ?thesis by blast
qed

theorem progress_increasing_and_bounded_witness:
  "(0::rat) < 10 \<and>
   progress_events (trace (fst (merge_videos_fast
      (env0 [''frame=1 time=00:00:02.50 bitrate=x'', ''no marker'',
             ''time=00:00:07.00 x'', ''time=00:01:00.00 x'', ''time=00:01:00.00 x''])
      [''a'', ''b''] ''out/0001.MP4'' (Some (Fin 10)) world0))) = [25, 70, 100] \<and>
   (\<exists>ps. [25, 70, 100] = progress_events (trace world0) @ ps \<and> sorted_wrt (<) ps \<and>
      (\<forall>p\<in>set ps. 0 < p \<and> p \<le> 100))"
proof -
  let ?e = "env0 [''frame=1 time=00:00:02.50 bitrate=x'', ''no marker'',
             ''time=00:00:07.00 x'', ''time=00:01:00.00 x'', ''time=00:01:00.00 x'']"
  have h: "(0::rat) < 10" by simp
  have ev: "progress_events (trace (fst (merge_videos_fast ?e
      [''a'', ''b''] ''out/0001.MP4'' (Some (Fin 10)) world0))) = [25, 70, 100]"
    by code_simp
  from progress_increasing_and_bounded [OF h, of ?e "[''a'', ''b'']" "''out/0001.MP4''" world0]
  obtain ps where "progress_events (trace (fst (merge_videos_fast ?e
      [''a'', ''b''] ''out/0001.MP4'' (Some (Fin 10)) world0))) = progress_events (trace world0) @ ps"
    "sorted_wrt (<) ps" "\<forall>p\<in>set ps. 0 < p \<and> p \<le> 100"
    by blast
  with ev have "\<exists>ps. [25, 70, 100] = progress_events (trace world0) @ ps \<and> sorted_wrt (<) ps \<and>
      (\<forall>p\<in>set ps. 0 < p \<and> p \<le> 100)" by metis
  with h ev show ?thesis by blast
qed

text \<open>
  Claim C1, counterexample to the stated formula read in exact arithmetic. With a total
  duration of 600 seconds and the diagnostic line \<open>time=00:02:54.00 x\<close> the parsed fields
  are 0, 2 and 54, so that the elapsed time is 174 seconds and
  \<open>min(100, floor(174 / 600 * 100))\<close> is 29; the bar is advanced to 28: the float
  \<open>174 / 600\<close> lies below 0.29, and its product with 100 rounds to a float below 29.
\<close>

theorem progress_below_exact_formula:
  "time_fields dec_float ''time=00:02:54.00 x'' = Inr (Fin 0, Fin 2, Fin 54) \<and>
   progress_events (trace (fst (merge_videos_fast (env0 [''time=00:02:54.00 x''])
      [''a'', ''b''] ''out/0001.MP4'' (Some (Fin 600)) world0))) = [28] \<and>
   min 100 \<lfloor>((0::rat) * 3600 + 2 * 60 + 54) / 600 * 100\<rfloor> = (29::int)"
proof -
  have tf: "time_fields dec_float ''time=00:02:54.00 x'' = Inr (Fin 0, Fin 2, Fin 54)"
    by code_simp
  have ev: "progress_events (trace (fst (merge_videos_fast (env0 [''time=00:02:54.00 x''])
      [''a'', ''b''] ''out/0001.MP4'' (Some (Fin 600)) world0))) = [28]"
    by code_simp
  have ex: "min 100 \<lfloor>((0::rat) * 3600 + 2 * 60 + 54) / 600 * 100\<rfloor> = (29::int)"
    by simp
  from tf ev ex show ?thesis by simp
qed

section \<open>Properties of the duration probe and of the guard on the division\<close>

text \<open>
  Claim C7. \<open>get_video_duration\<close> always returns a number and never raises. When running
  \<open>ffprobe\<close> raises (the binary is missing, the exit status is not zero) or \<open>float\<close>
  rejects the output, the result is 0; otherwise it is the parsed output.
\<close>

theorem probe_never_raises:
  "(\<exists>d. get_video_duration e filepath = Inr d) \<and>
   (\<forall>err. check_output e (ffprobe_cmd filepath) = Inl err \<longrightarrow>
      get_video_duration e filepath = Inr (Fin 0)) \<and>
   (\<forall>out. check_output e (ffprobe_cmd filepath) = Inr out \<and> py_float e (strip out) = None \<longrightarrow>
      get_video_duration e filepath = Inr (Fin 0)) \<and>
   (\<forall>out d. check_output e (ffprobe_cmd filepath) = Inr out \<and> py_float e (strip out) = Some d \<longrightarrow>
      get_video_duration e filepath = Inr d)"
  by (auto simp: get_video_duration_def probe_duration_def split: sum.splits option.splits)

theorem probe_never_raises_witness:
  "check_output ((env0 [])\<lparr>check_output := \<lambda>cmd. Inl (CalledProcessError 1)\<rparr>) (ffprobe_cmd ''a.MP4'')
     = Inl (CalledProcessError 1) \<and>
   get_video_duration ((env0 [])\<lparr>check_output := \<lambda>cmd. Inl (CalledProcessError 1)\<rparr>) ''a.MP4''
     = Inr (Fin 0) \<and>
   check_output ((env0 [])\<lparr>check_output := \<lambda>cmd. Inl FileNotFoundError\<rparr>) (ffprobe_cmd ''a.MP4'')
     = Inl FileNotFoundError \<and>
   get_video_duration ((env0 [])\<lparr>check_output := \<lambda>cmd. Inl FileNotFoundError\<rparr>) ''a.MP4''
     = Inr (Fin 0) \<and>
   check_output ((env0 [])\<lparr>check_output := \<lambda>cmd. Inr ''N/A''\<rparr>) (ffprobe_cmd ''a.MP4'') = Inr ''N/A'' \<and>
   py_float ((env0 [])\<lparr>check_output := \<lambda>cmd. Inr ''N/A''\<rparr>) (strip ''N/A'') = None \<and>
   get_video_duration ((env0 [])\<lparr>check_output := \<lambda>cmd. Inr ''N/A''\<rparr>) ''a.MP4'' = Inr (Fin 0)"
proof -
  let ?e1 = "(env0 [])\<lparr>check_output := \<lambda>cmd. Inl (CalledProcessError 1)\<rparr>"
  let ?e2 = "(env0 [])\<lparr>check_output := \<lambda>cmd. Inl FileNotFoundError\<rparr>"
  let ?e3 = "(env0 [])\<lparr>check_output := \<lambda>cmd. Inr ''N/A''\<rparr>"
  have c1: "check_output ?e1 (ffprobe_cmd ''a.MP4'') = Inl (CalledProcessError 1)" by simp
  have c2: "check_output ?e2 (ffprobe_cmd ''a.MP4'') = Inl FileNotFoundError" by simp
  have c3: "check_output ?e3 (ffprobe_cmd ''a.MP4'') = Inr ''N/A''" by simp
  have f3: "py_float ?e3 (strip ''N/A'') = None" by code_simp
  from probe_never_raises [of ?e1 "''a.MP4''"] c1
  have r1: "get_video_duration ?e1 ''a.MP4'' = Inr (Fin 0)" by blast
  from probe_never_raises [of ?e2 "''a.MP4''"] c2
  have r2: "get_video_duration ?e2 ''a.MP4'' = Inr (Fin 0)" by blast
  from probe_never_raises [of ?e3 "''a.MP4''"] c3 f3
  have r3: "get_video_duration ?e3 ''a.MP4'' = Inr (Fin 0)" by blast
  from c1 c2 c3 f3 r1 r2 r3 show ?thesis by (intro conjI)
qed

lemma time_fields_errors:
  "time_fields float line = Inl err \<Longrightarrow> err = IndexError \<or> err = ValueError"
  by (auto simp: time_fields_def py_index_def unpack3_def
      split: sum.splits if_splits list.splits option.splits)

lemma py_int_errors: "py_int x = Inl err \<Longrightarrow> err = ValueError \<or> err = OverflowError"
  by (cases x) (auto simp: py_int_def)

lemma line_progress_no_zero_division:
  "td \<noteq> Fin 0 \<Longrightarrow> line_progress float td line \<noteq> Inl ZeroDivisionError"
  by (auto simp: line_progress_def progress_value_def Let_def fdiv_def
      dest: time_fields_errors py_int_errors split: sum.splits prod.splits)

lemma read_progress_no_zero_division:
  "td \<noteq> Fin 0 \<Longrightarrow> snd (read_progress float td ls lp n) \<noteq> Some ZeroDivisionError"
proof (induction ls arbitrary: lp n)
  case Nil
  show ?case by simp
next
  case (Cons line rest)
  show ?case
  proof (cases "line_progress float td line")
    case (Inl err)
    with line_progress_no_zero_division [OF Cons.prems, of float line]
    show ?thesis using Cons.IH [OF Cons.prems, of lp n] by auto
  next
    case (Inr progress)
    then show ?thesis
      using Cons.IH [OF Cons.prems, of progress "n + (progress - lp)"]
        Cons.IH [OF Cons.prems, of lp n]
      by (auto simp: Let_def split: prod.splits)
  qed
qed

lemma read_progress_zero_divisionD:
  "read_progress float td ls lp n = (ps, Some ZeroDivisionError) \<Longrightarrow> td = Fin 0"
  using read_progress_no_zero_division [of td float ls lp n] by auto

lemma merge_videos_fast_returns: "snd (merge_videos_fast e vp out td w) = None"
  by (simp add: merge_videos_fast_def split: prod.splits option.splits)

lemma merge_body_no_zero_division:
  assumes "open_write e (out @ ''.txt'') \<noteq> Some ZeroDivisionError"
    and "popen e (ffmpeg_cmd (out @ ''.txt'') out) \<noteq> Inl ZeroDivisionError"
  shows "snd (merge_body e vp out td w) \<noteq> Some ZeroDivisionError"
  using assms
  by (auto simp: merge_body_def create_concat_file_def os_remove_def Let_def truthy_def
      dest: read_progress_zero_divisionD
      split: option.splits sum.splits prod.splits if_splits)

lemma merge_without_duration_trace:
  assumes "\<not> truthy td"
  shows "\<exists>es. trace (fst (merge_videos_fast e vp out td w)) = trace w @ es \<and>
              progress_events es = [] \<and> BarClose \<notin> set es \<and> (\<forall>s. BarOpen s \<notin> set es)"
  using assms
  by (auto simp: merge_videos_fast_def merge_body_def create_concat_file_def os_remove_def
      emit_def Let_def
      split: option.splits sum.splits prod.splits if_splits)

text \<open>
  Claim C10. The division of the progress computation is only evaluated for a truthy
  \<open>total_duration\<close>, so the body of the merge never raises ZeroDivisionError (when the
  environment's own failures are not of that kind); and when \<open>total_duration\<close> is \<open>None\<close> or
  0 the progress bar is never opened, advanced or closed.
\<close>

theorem division_is_guarded:
  assumes "open_write e (out @ ''.txt'') \<noteq> Some ZeroDivisionError"
    and "popen e (ffmpeg_cmd (out @ ''.txt'') out) \<noteq> Inl ZeroDivisionError"
  shows "snd (merge_body e vp out td w) \<noteq> Some ZeroDivisionError \<and>
         (td = None \<or> td = Some (Fin 0) \<longrightarrow>
            (\<exists>es. trace (fst (merge_videos_fast e vp out td w)) = trace w @ es \<and>
                  progress_events es = [] \<and> BarClose \<notin> set es \<and> (\<forall>s. BarOpen s \<notin> set es)))"
proof (intro conjI impI)
  show "snd (merge_body e vp out td w) \<noteq> Some ZeroDivisionError"
    using assms by (rule merge_body_no_zero_division)
next
  assume "td = None \<or> td = Some (Fin 0)"
  then have "\<not> truthy td" by (auto simp: truthy_def)
  then show "\<exists>es. trace (fst (merge_videos_fast e vp out td w)) = trace w @ es \<and>
                  progress_events es = [] \<and> BarClose \<notin> set es \<and> (\<forall>s. BarOpen s \<notin> set es)"
    by (rule merge_without_duration_trace)
qed

theorem division_is_guarded_witness:
  "open_write (env0 [''time=00:00:05.00 x'']) (''out/0001.MP4'' @ ''.txt'') \<noteq> Some ZeroDivisionError \<and>
   popen (env0 [''time=00:00:05.00 x'']) (ffmpeg_cmd (''out/0001.MP4'' @ ''.txt'') ''out/0001.MP4'')
     \<noteq> Inl ZeroDivisionError \<and>
   snd (merge_body (env0 [''time=00:00:05.00 x'']) [''a'', ''b''] ''out/0001.MP4'' (Some (Fin 0)) world0)
     \<noteq> Some ZeroDivisionError \<and>
   (\<exists>es. trace (fst (merge_videos_fast (env0 [''time=00:00:05.00 x'']) [''a'', ''b'']
                       ''out/0001.MP4'' (Some (Fin 0)) world0)) = trace world0 @ es \<and>
         progress_events es = [] \<and> BarClose \<notin> set es \<and> (\<forall>s. BarOpen s \<notin> set es))"
proof -
  let ?e = "env0 [''time=00:00:05.00 x'']"
  have h1: "open_write ?e (''out/0001.MP4'' @ ''.txt'') \<noteq> Some ZeroDivisionError"
    by (simp add: env0_def)
  have h2: "popen ?e (ffmpeg_cmd (''out/0001.MP4'' @ ''.txt'') ''out/0001.MP4'') \<noteq> Inl ZeroDivisionError"
    by (simp add: env0_def)
  have h3: "Some (Fin 0) = None \<or> Some (Fin 0) = Some (Fin 0)" by simp
  from division_is_guarded [OF h1 h2, of "[''a'', ''b'']" "Some (Fin 0)" world0] h3
  have "snd (merge_body ?e [''a'', ''b''] ''out/0001.MP4'' (Some (Fin 0)) world0) \<noteq> Some ZeroDivisionError"
    and "\<exists>es. trace (fst (merge_videos_fast ?e [''a'', ''b'']
                       ''out/0001.MP4'' (Some (Fin 0)) world0)) = trace world0 @ es \<and>
         progress_events es = [] \<and> BarClose \<notin> set es \<and> (\<forall>s. BarOpen s \<notin> set es)"
    by blast+
  with h1 h2 show ?thesis by (intro conjI)
qed

section \<open>Failures inside a merge\<close>

lemma read_progress_stops_at_error:
  assumes "\<forall>l\<in>set pre. l \<noteq> [] \<and> (contains ''time='' l \<longrightarrow> (\<exists>p. line_progress float td l = Inr p))"
    and "line \<noteq> []" "contains ''time='' line" "line_progress float td line = Inl err"
  shows "read_progress float td (pre @ line # post) lp n
           = (fst (read_progress float td pre lp n), Some err)"
  using assms(1)
proof (induction pre arbitrary: lp n)
  case Nil
  from assms(2-4) show ?case by simp
next
  case (Cons l pre)
  then have l: "l \<noteq> []" and ih: "\<And>lp n. read_progress float td (pre @ line # post) lp n
           = (fst (read_progress float td pre lp n), Some err)"
    by simp_all
  show ?case
  proof (cases "contains ''time='' l")
    case False
    with l ih [of lp n] show ?thesis by simp
  next
    case True
    with Cons.prems obtain p where p: "line_progress float td l = Inr p" by auto
    show ?thesis
    proof (cases "p > lp")
      case False
      with True l p ih [of lp n] show ?thesis by simp
    next
      case gt: True
      with True l p ih [of p "n + (p - lp)"] show ?thesis
        by (simp add: Let_def split: prod.splits)
    qed
  qed
qed

text \<open>
  Claim C5, as amended. A diagnostic line whose \<open>time=\<close> marker is malformed does not make
  the merge call raise: reading the stream ends at that line (the progress emitted is that
  of the lines before it, whatever follows), the error is printed as a merge error, and
  the call returns normally.
\<close>

theorem malformed_time_is_reported:
  assumes "open_write e (out @ ''.txt'') = None"
    and "popen e (ffmpeg_cmd (out @ ''.txt'') out) = Inr proc"
    and "stderr_lines proc = pre @ line # post"
    and "\<forall>l\<in>set pre. l \<noteq> [] \<and>
           (contains ''time='' l \<longrightarrow> (\<exists>p. line_progress (py_float e) td l = Inr p))"
    and "line \<noteq> []" and "contains ''time='' line"
    and "time_fields (py_float e) line = Inl err"
    and "td \<noteq> Fin 0"
  shows "snd (merge_videos_fast e vp out (Some td) w) = None \<and>
         (\<exists>es. trace (fst (merge_videos_fast e vp out (Some td) w))
                 = trace w @ es @ [Print (MergeError err)] \<and>
               progress_events es = fst (read_progress (py_float e) td pre 0 0))"
proof -
  from assms(7) have lp: "line_progress (py_float e) td line = Inl err"
    by (simp add: line_progress_def)
  from read_progress_stops_at_error [OF assms(4,5,6) lp, of post 0 0] assms(3)
  have rp: "read_progress (py_float e) td (stderr_lines proc) 0 0
              = (fst (read_progress (py_float e) td pre 0 0), Some err)" by simp
  let ?ps = "fst (read_progress (py_float e) td pre 0 0)"
  let ?es = "Popen (ffmpeg_cmd (out @ ''.txt'') out) # BarOpen (''Merging '' @ basename out)
               # map Progress ?ps"
  from assms(1,2,8) rp
  have "trace (fst (merge_videos_fast e vp out (Some td) w))
          = trace w @ ?es @ [Print (MergeError err)]"
    by (simp add: merge_videos_fast_def merge_body_def create_concat_file_def emit_def
        Let_def truthy_def)
  moreover have "progress_events ?es = ?ps" by (simp add: progress_events_map)
  ultimately show ?thesis using merge_videos_fast_returns by blast
qed

theorem malformed_time_is_reported_witness:
  "open_write (env0 [''time=00:00:02.50 x'', ''time=N/A x'', ''time=00:00:07.00 x''])
     (''out/0001.MP4'' @ ''.txt'') = None \<and>
   time_fields dec_float ''time=N/A x'' = Inl ValueError \<and>
   snd (merge_videos_fast (env0 [''time=00:00:02.50 x'', ''time=N/A x'', ''time=00:00:07.00 x''])
          [''a'', ''b''] ''out/0001.MP4'' (Some (Fin 10)) world0) = None \<and>
   (\<exists>es. trace (fst (merge_videos_fast
                  (env0 [''time=00:00:02.50 x'', ''time=N/A x'', ''time=00:00:07.00 x''])
                  [''a'', ''b''] ''out/0001.MP4'' (Some (Fin 10)) world0))
            = trace world0 @ es @ [Print (MergeError ValueError)] \<and>
          progress_events es = [25])"
proof -
  let ?e = "env0 [''time=00:00:02.50 x'', ''time=N/A x'', ''time=00:00:07.00 x'']"
  let ?proc = "\<lparr>stderr_lines = [''time=00:00:02.50 x'', ''time=N/A x'', ''time=00:00:07.00 x''],
                returncode = 0\<rparr>"
  have a1: "open_write ?e (''out/0001.MP4'' @ ''.txt'') = None" by (simp add: env0_def)
  have a2: "popen ?e (ffmpeg_cmd (''out/0001.MP4'' @ ''.txt'') ''out/0001.MP4'') = Inr ?proc"
    by (simp add: env0_def)
  have a3: "stderr_lines ?proc = [''time=00:00:02.50 x''] @ ''time=N/A x'' # [''time=00:00:07.00 x'']"
    by simp
  have pf: "py_float ?e = dec_float" by (simp add: env0_def)
  have l1: "line_progress dec_float (Fin 10) ''time=00:00:02.50 x'' = Inr 25" by code_simp
  have a4: "\<forall>l\<in>set [''time=00:00:02.50 x'']. l \<noteq> [] \<and>
           (contains ''time='' l \<longrightarrow> (\<exists>p. line_progress (py_float ?e) (Fin 10) l = Inr p))"
    using l1 pf by simp
  have a5: "''time=N/A x'' \<noteq> []" by simp
  have a6: "contains ''time='' ''time=N/A x''" by code_simp
  have tf: "time_fields dec_float ''time=N/A x'' = Inl ValueError" by code_simp
  have a7: "time_fields (py_float ?e) ''time=N/A x'' = Inl ValueError" using tf pf by simp
  have a8: "Fin 10 \<noteq> Fin 0" by simp
  have "fst (read_progress dec_float (Fin 10) [''time=00:00:02.50 x''] 0 0) = [25]"
    by code_simp
  with pf have r: "fst (read_progress (py_float ?e) (Fin 10) [''time=00:00:02.50 x''] 0 0) = [25]"
    by simp
  from malformed_time_is_reported [OF a1 a2 a3 a4 a5 a6 a7 a8, of "[''a'', ''b'']" world0] r
  have "snd (merge_videos_fast ?e [''a'', ''b''] ''out/0001.MP4'' (Some (Fin 10)) world0) = None"
    and "\<exists>es. trace (fst (merge_videos_fast ?e [''a'', ''b''] ''out/0001.MP4'' (Some (Fin 10)) world0))
            = trace world0 @ es @ [Print (MergeError ValueError)] \<and> progress_events es = [25]"
    by simp_all
  with a1 tf show ?thesis by (intro conjI)
qed

text \<open>
  Claim C5 as stated fails: after the malformed marker \<open>time=N/A\<close> the loop does not
  continue (the later line, worth 70 percent, advances nothing), the process is not waited
  for, and the list file is still there.
\<close>

theorem malformed_time_aborts_merge:
  "trace (fst (merge_videos_fast (env0 [''time=N/A x'', ''time=00:00:07.00 x''])
                 [''a'', ''b''] ''out/0001.MP4'' (Some (Fin 10)) world0))
     = [Popen (ffmpeg_cmd ''out/0001.MP4.txt'' ''out/0001.MP4''), BarOpen ''Merging 0001.MP4'',
        Print (MergeError ValueError)] \<and>
   files (fst (merge_videos_fast (env0 [''time=N/A x'', ''time=00:00:07.00 x''])
                 [''a'', ''b''] ''out/0001.MP4'' (Some (Fin 10)) world0)) ''out/0001.MP4.txt''
     \<noteq> None"
  by code_simp

lemma concat_file_removed_on_exit:
  assumes "merge_body e vp out td w = (w', None)"
  shows "files w' (out @ ''.txt'') = None"
  using assms
  by (auto simp: merge_body_def create_concat_file_def os_remove_def emit_def Let_def
      split: option.splits sum.splits prod.splits if_splits)

text \<open>
  Claim C4 fails on the code. When the merge process exits, with status 0 or not, the list
  file has been removed (\<open>concat_file_removed_on_exit\<close>), but the removal is not on the
  exception path: here \<open>ffmpeg\<close> cannot be started, and the list file written before is
  still there when the call returns.
\<close>

theorem concat_file_left_behind:
  "snd (merge_videos_fast ((env0 [])\<lparr>popen := \<lambda>cmd. Inl FileNotFoundError\<rparr>)
          [''a'', ''b''] ''out/0001.MP4'' (Some (Fin 10)) world0) = None \<and>
   trace (fst (merge_videos_fast ((env0 [])\<lparr>popen := \<lambda>cmd. Inl FileNotFoundError\<rparr>)
          [''a'', ''b''] ''out/0001.MP4'' (Some (Fin 10)) world0))
     = [Print (MergeError FileNotFoundError)] \<and>
   files (fst (merge_videos_fast ((env0 [])\<lparr>popen := \<lambda>cmd. Inl FileNotFoundError\<rparr>)
          [''a'', ''b''] ''out/0001.MP4'' (Some (Fin 10)) world0)) ''out/0001.MP4.txt''
     = Some (concat_text (env0 []) [''a'', ''b''])"
  by (simp add: merge_videos_fast_def merge_body_def create_concat_file_def emit_def env0_def
      world0_def concat_text_def)

lemma rename_parts_isolates_OSError:
  assumes "\<forall>src dst err. copy2 e src dst = Some err \<longrightarrow> is_OSError err"
  shows "snd (rename_parts e od vn k ps w) = None"
  using assms
  by (induction ps arbitrary: k w) (auto simp: Let_def split: option.splits)

text \<open>
  Claim C6 fails on the code. In rename mode a failed copy is caught and the loop goes on
  (\<open>rename_parts_isolates_OSError\<close>), and a failed merge is caught inside
  \<open>merge_videos_fast\<close>; but the copy of a single-part group in merge mode is not guarded.
  Here the copy of the first of two single-part recordings fails: the batch raises, nothing
  is printed for it, and the second recording is never copied.
\<close>

theorem single_copy_failure_aborts_batch:
  "snd (process_gopro_videos
     ((env0 [])\<lparr>listdir := \<lambda>d. Inr [''GH010001.MP4'', ''GH010002.MP4''],
                copy2 := \<lambda>src dst. if src = ''in/GH010001.MP4'' then Some OSError else None\<rparr>)
     ''in'' True world0) = Some OSError \<and>
   trace (fst (process_gopro_videos
     ((env0 [])\<lparr>listdir := \<lambda>d. Inr [''GH010001.MP4'', ''GH010002.MP4''],
                copy2 := \<lambda>src dst. if src = ''in/GH010001.MP4'' then Some OSError else None\<rparr>)
     ''in'' True world0))
     = [Print ProcessingVideos, Copy2 ''in/GH010001.MP4'' ''in/processed_videos/0001.MP4''] \<and>
   snd (process_gopro_videos
     ((env0 [])\<lparr>listdir := \<lambda>d. Inr [''GH010001.MP4'', ''GH010002.MP4''],
                copy2 := \<lambda>src dst. if src = ''in/GH010001.MP4'' then Some OSError else None\<rparr>)
     ''in'' False world0) = None \<and>
   trace (fst (process_gopro_videos
     ((env0 [])\<lparr>listdir := \<lambda>d. Inr [''GH010001.MP4'', ''GH010002.MP4''],
                copy2 := \<lambda>src dst. if src = ''in/GH010001.MP4'' then Some OSError else None\<rparr>)
     ''in'' False world0))
     = [Copy2 ''in/GH010001.MP4'' ''in/processed_videos/0001_1.MP4'',
        Print (ErrorProcessing ''GH010001.MP4'' OSError),
        Copy2 ''in/GH010002.MP4'' ''in/processed_videos/0002_1.MP4'',
        Print (CopiedRenamed ''GH010002.MP4'' ''0002_1.MP4'')]"
  by code_simp

section \<open>The merge branch of the batch\<close>





end
